theory Spec2Isabelle
  imports Main "HOL-Library.AList"
begin

section \<open>Strings and errors\<close>

text \<open>
  A Python \<open>str\<close> is a sequence of code points. A \<^typ>\<open>char\<close> stands here for one
  code point in the range U+0000 .. U+00FF (its number is \<^term>\<open>of_char c :: nat\<close>), so
  \<^typ>\<open>string\<close> covers exactly the Python strings over Latin-1 and \<^term>\<open>length\<close> is
  Python's \<open>len\<close> on them.

  Every \<open>raise\<close> of the source raises \<open>ValueError\<close> with a message; the message is
  kept, since it is what tells a missing phone from a duplicate one.
\<close>

datatype error = ValueError string | OverflowError string

definition msg_name_empty :: string where
  "msg_name_empty = ''Name cannot be empty or contain only spaces''"

definition msg_phone_invalid :: string where
  "msg_phone_invalid = ''Phone number must contain 10 digits.''"

definition msg_phone_in_use :: string where
  "msg_phone_in_use = ''Phone number already in use. Enter a new phone number.''"

definition msg_phone_not_found :: string where
  "msg_phone_not_found = ''Phone number not found.''"

definition msg_date_format :: string where
  "msg_date_format = ''Invalid date format. Use DD.MM.YYYY''"

text \<open>
  \<open>str.isdigit\<close>: every character has Numeric_Type Digit or Decimal, and there is at
  least one character. Below U+0100 these are \<open>0\<close> .. \<open>9\<close> and the superscripts
  U+00B2, U+00B3 and U+00B9.
\<close>

definition is_ascii_digit :: "char \<Rightarrow> bool" where
  "is_ascii_digit c = (48 \<le> (of_char c :: nat) \<and> (of_char c :: nat) \<le> 57)"

definition char_isdigit :: "char \<Rightarrow> bool" where
  "char_isdigit c =
     (is_ascii_digit c \<or> (of_char c :: nat) = 178 \<or> (of_char c :: nat) = 179
        \<or> (of_char c :: nat) = 185)"

definition isdigit :: "string \<Rightarrow> bool" where
  "isdigit s = (s \<noteq> [] \<and> list_all char_isdigit s)"

text \<open>
  \<open>str.strip()\<close> removes leading and trailing whitespace. Below U+0100 the whitespace
  characters are U+0009 .. U+000D, U+001C .. U+0020, U+0085 and U+00A0.
\<close>

definition char_isspace :: "char \<Rightarrow> bool" where
  "char_isspace c =
     (let n = (of_char c :: nat)
      in (9 \<le> n \<and> n \<le> 13) \<or> (28 \<le> n \<and> n \<le> 32) \<or> n = 133 \<or> n = 160)"

definition strip :: "string \<Rightarrow> string" where
  "strip s = rev (dropWhile char_isspace (rev (dropWhile char_isspace s)))"

section \<open>Fields\<close>

text \<open>\<open>Name.__init__\<close>: the stored value is the stripped string.\<close>

definition Name :: "string \<Rightarrow> error + string" where
  "Name v = (if strip v = [] then Inl (ValueError msg_name_empty) else Inr (strip v))"

text \<open>\<open>Phone.__init__\<close>: the stored value is the argument itself.\<close>

definition Phone :: "string \<Rightarrow> error + string" where
  "Phone v =
     (if \<not> isdigit v \<or> length v \<noteq> 10 then Inl (ValueError msg_phone_invalid) else Inr v)"

section \<open>Calendar dates\<close>

text \<open>
  The proleptic Gregorian calendar of Python's \<open>datetime.date\<close>: the fields are
  checked on construction, dates are compared field by field, subtracted through their
  ordinals (day 1 is 01.01.0001) and \<open>weekday()\<close> counts Monday as 0.
\<close>

record date =
  year :: int
  month :: int
  day :: int

definition MINYEAR :: int where "MINYEAR = 1"

definition MAXYEAR :: int where "MAXYEAR = 9999"

definition is_leap :: "int \<Rightarrow> bool" where
  "is_leap y = (y mod 4 = 0 \<and> (y mod 100 \<noteq> 0 \<or> y mod 400 = 0))"

definition DAYS_IN_MONTH :: "int list" where
  "DAYS_IN_MONTH = [-1, 31, 28, 31, 30, 31, 30, 31, 31, 30, 31, 30, 31]"

definition DAYS_BEFORE_MONTH :: "int list" where
  "DAYS_BEFORE_MONTH = [-1, 0, 31, 59, 90, 120, 151, 181, 212, 243, 273, 304, 334]"

definition days_in_month :: "int \<Rightarrow> int \<Rightarrow> int" where
  "days_in_month y m = (if m = 2 \<and> is_leap y then 29 else DAYS_IN_MONTH ! nat m)"

definition days_before_year :: "int \<Rightarrow> int" where
  "days_before_year y = (y - 1) * 365 + (y - 1) div 4 - (y - 1) div 100 + (y - 1) div 400"

definition days_before_month :: "int \<Rightarrow> int \<Rightarrow> int" where
  "days_before_month y m = DAYS_BEFORE_MONTH ! nat m + (if m > 2 \<and> is_leap y then 1 else 0)"

definition check_date_fields :: "int \<Rightarrow> int \<Rightarrow> int \<Rightarrow> bool" where
  "check_date_fields y m d =
     (MINYEAR \<le> y \<and> y \<le> MAXYEAR \<and> 1 \<le> m \<and> m \<le> 12 \<and> 1 \<le> d \<and> d \<le> days_in_month y m)"

definition valid_date :: "date \<Rightarrow> bool" where
  "valid_date dt = check_date_fields (year dt) (month dt) (day dt)"

definition msg_out_of_range :: string where
  "msg_out_of_range = ''date field out of range''"

text \<open>The constructor \<open>date(year, month, day)\<close>.\<close>

definition make_date :: "int \<Rightarrow> int \<Rightarrow> int \<Rightarrow> error + date" where
  "make_date y m d =
     (if check_date_fields y m d then Inr \<lparr>year = y, month = m, day = d\<rparr>
      else Inl (ValueError msg_out_of_range))"

text \<open>\<open>dt.replace(year=y)\<close> builds a new date and so checks the fields again.\<close>

definition replace_year :: "date \<Rightarrow> int \<Rightarrow> error + date" where
  "replace_year dt y = make_date y (month dt) (day dt)"

definition toordinal :: "date \<Rightarrow> int" where
  "toordinal dt = days_before_year (year dt) + days_before_month (year dt) (month dt) + day dt"

definition date_less :: "date \<Rightarrow> date \<Rightarrow> bool" where
  "date_less a b =
     (year a < year b \<or> (year a = year b \<and>
        (month a < month b \<or> (month a = month b \<and> day a < day b))))"

definition weekday :: "date \<Rightarrow> int" where
  "weekday dt = (toordinal dt + 6) mod 7"

text \<open>
  \<open>dt + timedelta(days=n)\<close> for \<open>n \<ge> 0\<close>: the date \<open>n\<close> days later, or
  \<open>OverflowError\<close> once the year would pass \<open>MAXYEAR\<close>.
\<close>

definition next_day :: "date \<Rightarrow> date" where
  "next_day dt =
     (if day dt < days_in_month (year dt) (month dt) then dt\<lparr>day := day dt + 1\<rparr>
      else if month dt < 12 then \<lparr>year = year dt, month = month dt + 1, day = 1\<rparr>
      else \<lparr>year = year dt + 1, month = 1, day = 1\<rparr>)"

fun add_days :: "date \<Rightarrow> nat \<Rightarrow> error + date" where
  "add_days dt 0 = Inr dt"
| "add_days dt (Suc n) =
     (if year (next_day dt) > MAXYEAR then Inl (OverflowError msg_out_of_range)
      else add_days (next_day dt) n)"

subsection \<open>Formatting with \<open>%d.%m.%Y\<close>\<close>

text \<open>
  \<open>%d\<close> and \<open>%m\<close> are zero-padded to two digits and \<open>%Y\<close> to four, as the
  library documents them (0001, ..., 9999).
\<close>

definition digit_char :: "int \<Rightarrow> char" where
  "digit_char n = ''0123456789'' ! nat n"

definition zfill2 :: "int \<Rightarrow> string" where
  "zfill2 n = [digit_char (n div 10), digit_char (n mod 10)]"

definition zfill4 :: "int \<Rightarrow> string" where
  "zfill4 n =
     [digit_char (n div 1000), digit_char (n div 100 mod 10),
      digit_char (n div 10 mod 10), digit_char (n mod 10)]"

definition strftime :: "date \<Rightarrow> string" where
  "strftime dt = zfill2 (day dt) @ ''.'' @ zfill2 (month dt) @ ''.'' @ zfill4 (year dt)"

subsection \<open>Parsing with \<open>%d.%m.%Y\<close>\<close>

text \<open>
  \<open>strptime\<close> compiles the format into the regular expression
  \<^verbatim>\<open>(?P<d>3[0-1]|[1-2]\d|0[1-9]|[1-9]| [1-9])\.(?P<m>1[0-2]|0[1-9]|[1-9])\.(?P<Y>\d\d\d\d)\<close>,
  matches it at the start of the string, rejects the string when characters are left
  after the match, converts the groups with \<open>int\<close> and builds the date. A matcher
  returns its matches in the order in which the backtracking engine tries them, each
  with the text that follows it; the first complete match is the engine's.
\<close>

definition in_range :: "nat \<Rightarrow> nat \<Rightarrow> char \<Rightarrow> bool" where
  "in_range lo hi c = (lo \<le> of_char c \<and> (of_char c :: nat) \<le> hi)"

definition match1 :: "(char \<Rightarrow> bool) \<Rightarrow> string \<Rightarrow> (string \<times> string) list" where
  "match1 P s = (case s of a # r \<Rightarrow> if P a then [([a], r)] else [] | _ \<Rightarrow> [])"

definition match2 ::
  "(char \<Rightarrow> bool) \<Rightarrow> (char \<Rightarrow> bool) \<Rightarrow> string \<Rightarrow> (string \<times> string) list" where
  "match2 P Q s =
     (case s of a # b # r \<Rightarrow> if P a \<and> Q b then [([a, b], r)] else [] | _ \<Rightarrow> [])"

definition re_d :: "string \<Rightarrow> (string \<times> string) list" where
  "re_d s =
     match2 (in_range 51 51) (in_range 48 49) s @
     match2 (in_range 49 50) is_ascii_digit s @
     match2 (in_range 48 48) (in_range 49 57) s @
     match1 (in_range 49 57) s @
     match2 (in_range 32 32) (in_range 49 57) s"

definition re_m :: "string \<Rightarrow> (string \<times> string) list" where
  "re_m s =
     match2 (in_range 49 49) (in_range 48 50) s @
     match2 (in_range 48 48) (in_range 49 57) s @
     match1 (in_range 49 57) s"

definition re_Y :: "string \<Rightarrow> (string \<times> string) list" where
  "re_Y s =
     (case s of a # b # c # d # r \<Rightarrow>
        if is_ascii_digit a \<and> is_ascii_digit b \<and> is_ascii_digit c \<and> is_ascii_digit d
        then [([a, b, c, d], r)] else []
      | _ \<Rightarrow> [])"

definition re_dot :: "string \<Rightarrow> (string \<times> string) list" where
  "re_dot s = match1 (in_range 46 46) s"

definition re_match :: "string \<Rightarrow> (string \<times> string \<times> string \<times> string) list" where
  "re_match s =
     concat (map (\<lambda>(d, r0). concat (map (\<lambda>(_, r1). concat (map (\<lambda>(m, r2).
       concat (map (\<lambda>(_, r3). map (\<lambda>(y, r4). (d, m, y, r4)) (re_Y r3)) (re_dot r2)))
         (re_m r1))) (re_dot r0))) (re_d s))"

text \<open>\<open>int\<close> on a matched group: decimal digits, after leading whitespace is dropped.\<close>

definition digit_val :: "char \<Rightarrow> int" where
  "digit_val c = int (of_char c) - 48"

definition py_int :: "string \<Rightarrow> int" where
  "py_int s = foldl (\<lambda>a c. 10 * a + digit_val c) 0 (strip s)"

definition strptime :: "string \<Rightarrow> error + date" where
  "strptime s =
     (case re_match s of
        [] \<Rightarrow> Inl (ValueError ''time data does not match format'')
      | (d, m, y, rest) # _ \<Rightarrow>
          if rest \<noteq> [] then Inl (ValueError ''unconverted data remains'')
          else make_date (py_int y) (py_int m) (py_int d))"

text \<open>
  \<open>Birthday.__init__\<close> turns every \<open>ValueError\<close> of the parser into its own;
  \<open>date_to_string\<close> formats the stored date.
\<close>

definition Birthday :: "string \<Rightarrow> error + date" where
  "Birthday v =
     (case strptime v of
        Inl (ValueError _) \<Rightarrow> Inl (ValueError msg_date_format)
      | Inl e \<Rightarrow> Inl e
      | Inr dt \<Rightarrow> Inr dt)"

definition date_to_string :: "date \<Rightarrow> string" where
  "date_to_string dt = strftime dt"

section \<open>Records\<close>

text \<open>
  A contact: the validated name, the phone values in list order, and the birthday if one
  is set. An operation that mutates the contact returns its result together with the
  contact as it is afterwards; where the source raises, the result is an error and the
  contact is returned as the statements before the \<open>raise\<close> left it.
\<close>

record Record =
  name :: string
  phones :: "string list"
  birthday :: "date option"

definition Record_init :: "string \<Rightarrow> error + Record" where
  "Record_init n =
     (case Name n of
        Inl e \<Rightarrow> Inl e
      | Inr v \<Rightarrow> Inr \<lparr>name = v, phones = [], birthday = None\<rparr>)"

text \<open>
  \<open>find_phone\<close> returns the first \<open>Phone\<close> object whose value equals the argument. The
  object is identified by its position in the list.
\<close>

fun first_index :: "('a \<Rightarrow> bool) \<Rightarrow> 'a list \<Rightarrow> nat option" where
  "first_index P [] = None"
| "first_index P (x # xs) = (if P x then Some 0 else map_option Suc (first_index P xs))"

definition find_phone :: "Record \<Rightarrow> string \<Rightarrow> nat option" where
  "find_phone r p = first_index (\<lambda>v. v = p) (phones r)"

definition add_phone :: "Record \<Rightarrow> string \<Rightarrow> (error + unit) \<times> Record" where
  "add_phone r p =
     (if find_phone r p \<noteq> None then (Inl (ValueError msg_phone_in_use), r)
      else case Phone p of
             Inl e \<Rightarrow> (Inl e, r)
           | Inr v \<Rightarrow> (Inr (), r\<lparr>phones := phones r @ [v]\<rparr>))"

text \<open>\<open>list.remove\<close> takes out the found object itself, the others keep their order.\<close>

definition remove_phone :: "Record \<Rightarrow> string \<Rightarrow> bool \<times> Record" where
  "remove_phone r p =
     (case find_phone r p of
        Some i \<Rightarrow> (True, r\<lparr>phones := take i (phones r) @ drop (Suc i) (phones r)\<rparr>)
      | None \<Rightarrow> (False, r))"

definition edit_phone :: "Record \<Rightarrow> string \<Rightarrow> string \<Rightarrow> (error + bool) \<times> Record" where
  "edit_phone r current_number new_number =
     (case find_phone r current_number of
        None \<Rightarrow> (Inl (ValueError msg_phone_not_found), r)
      | Some i \<Rightarrow>
          if find_phone r new_number \<noteq> None then (Inl (ValueError msg_phone_in_use), r)
          else case Phone new_number of
                 Inl e \<Rightarrow> (Inl e, r)
               | Inr v \<Rightarrow> (Inr True, r\<lparr>phones := list_update (phones r) i v\<rparr>))"

definition add_birthday :: "Record \<Rightarrow> string \<Rightarrow> (error + bool) \<times> Record" where
  "add_birthday r date_str =
     (case Birthday date_str of
        Inl e \<Rightarrow> (Inl e, r)
      | Inr bday \<Rightarrow> (Inr True, r\<lparr>birthday := Some bday\<rparr>))"

definition birthday_to_string :: "Record \<Rightarrow> string option" where
  "birthday_to_string r = map_option date_to_string (birthday r)"

section \<open>The address book\<close>

text \<open>
  The dictionary of the book keeps its keys in insertion order: assigning to a key that
  is present replaces the value where it stands, a new key goes to the end.
\<close>

type_synonym AddressBook = "(string \<times> Record) list"

definition add_record :: "AddressBook \<Rightarrow> Record \<Rightarrow> AddressBook" where
  "add_record book r = AList.update (name r) r book"

definition find :: "AddressBook \<Rightarrow> string \<Rightarrow> Record option" where
  "find book n = map_of book n"

definition delete :: "AddressBook \<Rightarrow> string \<Rightarrow> bool \<times> AddressBook" where
  "delete book n =
     (if n \<in> fst ` set book then (True, AList.delete n book) else (False, book))"

text \<open>
  \<open>get_upcoming_birthdays\<close>, with the current date as an argument. The loop body makes
  the entry of one contact, if any; an exception raised in it ends the whole call.
\<close>

definition birthday_this_year :: "date \<Rightarrow> date \<Rightarrow> error + date" where
  "birthday_this_year today b =
     (case replace_year b (year today) of
        Inl e \<Rightarrow> Inl e
      | Inr d \<Rightarrow> if date_less d today then replace_year d (year today + 1) else Inr d)"

definition congratulation_date :: "date \<Rightarrow> error + date" where
  "congratulation_date d =
     (if weekday d = 5 then add_days d 2
      else if weekday d = 6 then add_days d 1
      else Inr d)"

definition contact_entry :: "date \<Rightarrow> Record \<Rightarrow> error + (string \<times> string) option" where
  "contact_entry today contact =
     (case birthday contact of
        None \<Rightarrow> Inr None
      | Some b \<Rightarrow>
          (case birthday_this_year today b of
             Inl e \<Rightarrow> Inl e
           | Inr d \<Rightarrow>
               let days_delta = toordinal d - toordinal today
               in if 0 \<le> days_delta \<and> days_delta \<le> 7
                  then (case congratulation_date d of
                          Inl e \<Rightarrow> Inl e
                        | Inr c \<Rightarrow> Inr (Some (name contact, strftime c)))
                  else Inr None))"

fun upcoming_loop ::
  "date \<Rightarrow> Record list \<Rightarrow> (string \<times> string) list \<Rightarrow> error + (string \<times> string) list" where
  "upcoming_loop today [] upcoming_birthdays = Inr upcoming_birthdays"
| "upcoming_loop today (contact # rest) upcoming_birthdays =
     (case contact_entry today contact of
        Inl e \<Rightarrow> Inl e
      | Inr None \<Rightarrow> upcoming_loop today rest upcoming_birthdays
      | Inr (Some entry) \<Rightarrow> upcoming_loop today rest (upcoming_birthdays @ [entry]))"

definition get_upcoming_birthdays ::
  "date \<Rightarrow> AddressBook \<Rightarrow> error + (string \<times> string) list" where
  "get_upcoming_birthdays today book = upcoming_loop today (map snd book) []"

section \<open>Predicates used in the statements\<close>

text \<open>
  A name has outer whitespace when its first or its last character is a whitespace
  character; the keys of a book are stripped when \<open>strip\<close> leaves each of them as it is,
  which holds for every book built with \<open>add_record\<close> from records made by
  \<open>Record_init\<close>.
\<close>

definition has_outer_whitespace :: "string \<Rightarrow> bool" where
  "has_outer_whitespace n = (n \<noteq> [] \<and> (char_isspace (hd n) \<or> char_isspace (last n)))"

definition keys_stripped :: "AddressBook \<Rightarrow> bool" where
  "keys_stripped book = list_all (\<lambda>(k, r). strip k = k) book"

text \<open>
  A contact is in the window when it has a birthday, the birthday can be moved to the
  current or the next year, and that date is today or at most seven days ahead.
\<close>

definition in_window :: "date \<Rightarrow> Record \<Rightarrow> bool" where
  "in_window today contact =
     (case birthday contact of
        None \<Rightarrow> False
      | Some b \<Rightarrow>
          (case birthday_this_year today b of
             Inl e \<Rightarrow> False
           | Inr d \<Rightarrow> 0 \<le> toordinal d - toordinal today \<and> toordinal d - toordinal today \<le> 7))"



section \<open>Auxiliary facts\<close>

subsection \<open>Finding a phone\<close>

lemma first_index_None_iff: "first_index P xs = None \<longleftrightarrow> (\<forall>x \<in> set xs. \<not> P x)"
  by (induction xs) auto

lemma first_index_SomeD:
  "first_index P xs = Some i \<Longrightarrow> i < length xs \<and> P (xs ! i) \<and> (\<forall>j<i. \<not> P (xs ! j))"
proof (induction xs arbitrary: i)
  case Nil
  then show ?case by simp
next
  case (Cons x xs)
  show ?case
  proof (cases "P x")
    case True
    with Cons.prems show ?thesis by simp
  next
    case False
    with Cons.prems obtain k where k: "first_index P xs = Some k" "i = Suc k"
      by auto
    from Cons.IH [OF k(1)] False k(2) show ?thesis
      by (auto simp: nth_Cons split: nat.splits)
  qed
qed

lemma find_phone_None_iff: "find_phone r p = None \<longleftrightarrow> p \<notin> set (phones r)"
  by (auto simp: find_phone_def first_index_None_iff)

lemma first_index_remove1:
  "first_index (\<lambda>v. v = p) xs = Some i \<Longrightarrow> take i xs @ drop (Suc i) xs = remove1 p xs"
  by (induction xs arbitrary: i) (auto split: if_splits)

lemma Phone_eq:
  "Phone p = (if length p = 10 \<and> list_all char_isdigit p then Inr p
              else Inl (ValueError msg_phone_invalid))"
  by (auto simp: Phone_def isdigit_def)

lemma ascii_isdigit: "list_all is_ascii_digit p \<Longrightarrow> list_all char_isdigit p"
  by (induction p) (auto simp: char_isdigit_def)

lemma delete_filter: "AList.delete n book = filter (\<lambda>(k, v). k \<noteq> n) book"
  by (induction book) (auto simp: AList.delete_eq)

subsection \<open>Stripping\<close>

lemma strip_eq_self:
  assumes "strip n = n" and "n \<noteq> []"
  shows "\<not> char_isspace (hd n) \<and> \<not> char_isspace (last n)"
proof -
  let ?P = char_isspace
  have "length (strip n) \<le> length (dropWhile ?P n)"
    unfolding strip_def using length_dropWhile_le [of ?P "rev (dropWhile ?P n)"] by simp
  with assms(1) have "length n \<le> length (dropWhile ?P n)" by simp
  moreover have "length (dropWhile ?P n) \<le> length n" by (rule length_dropWhile_le)
  ultimately have len: "length (dropWhile ?P n) = length n" by simp
  have d1: "dropWhile ?P n = n"
  proof -
    have "takeWhile ?P n @ dropWhile ?P n = n" by simp
    then have "length (takeWhile ?P n) + length (dropWhile ?P n) = length n"
      by (metis length_append)
    with len have "takeWhile ?P n = []" by simp
    then show ?thesis using takeWhile_dropWhile_id [of ?P n] by simp
  qed
  with assms(1) have "dropWhile ?P (rev n) = rev n"
    unfolding strip_def by (metis rev_rev_ident)
  with assms(2) d1 show ?thesis
    by (simp add: dropWhile_eq_self_iff hd_rev)
qed

lemma outer_whitespace_not_stripped: "has_outer_whitespace n \<Longrightarrow> strip n \<noteq> n"
  using strip_eq_self [of n] by (auto simp: has_outer_whitespace_def)

lemma strip_strip: "strip (strip s) = strip s"
proof -
  let ?P = char_isspace
  define ys where "ys = dropWhile ?P s"
  define zs where "zs = dropWhile ?P (rev ys)"
  have st: "strip s = rev zs" by (simp add: strip_def ys_def zs_def)
  have "dropWhile ?P (rev zs) = rev zs"
  proof (cases "zs = []")
    case True
    then show ?thesis by simp
  next
    case False
    have "rev ys = takeWhile ?P (rev ys) @ zs" by (simp add: zs_def)
    with False have "last (rev ys) = last zs" by (metis last_appendR)
    moreover from False have "ys \<noteq> []" by (auto simp: zs_def)
    ultimately have "last zs = hd ys" by (simp add: last_rev)
    moreover from \<open>ys \<noteq> []\<close> have "\<not> ?P (hd ys)"
      unfolding ys_def by (rule hd_dropWhile)
    ultimately show ?thesis using False
      by (simp add: dropWhile_eq_self_iff hd_rev)
  qed
  moreover have "dropWhile ?P zs = zs" by (simp add: zs_def)
  ultimately have "rev (dropWhile ?P (rev (dropWhile ?P (rev zs)))) = rev zs" by simp
  moreover have "strip (rev zs) = rev (dropWhile ?P (rev (dropWhile ?P (rev zs))))"
    by (simp add: strip_def)
  ultimately show ?thesis by (simp add: st)
qed

lemma keys_stripped_add_record:
  assumes "keys_stripped book" and "Record_init n = Inr r"
  shows "keys_stripped (add_record book r)"
proof -
  from assms(2) have "strip (name r) = name r"
    by (auto simp: Record_init_def Name_def strip_strip split: if_splits)
  moreover have "strip k = k \<Longrightarrow> list_all (\<lambda>(k, r). strip k = k) al \<Longrightarrow>
      list_all (\<lambda>(k, r). strip k = k) (AList.update k v al)" for k v and al :: AddressBook
    by (induction al) auto
  ultimately show ?thesis using assms(1) by (simp add: keys_stripped_def add_record_def)
qed

lemma keys_stripped_delete: "keys_stripped book \<Longrightarrow> keys_stripped (snd (delete book n))"
  by (auto simp: keys_stripped_def delete_def delete_filter list_all_iff)

lemma add_phone_distinct: "distinct (phones r) \<Longrightarrow> distinct (phones (snd (add_phone r p)))"
  by (auto simp: add_phone_def find_phone_None_iff Phone_eq)

lemma remove_phone_distinct: "distinct (phones r) \<Longrightarrow> distinct (phones (snd (remove_phone r p)))"
  by (simp add: remove_phone_def find_phone_def first_index_remove1 split: option.splits)

lemma edit_phone_distinct:
  "distinct (phones r) \<Longrightarrow> distinct (phones (snd (edit_phone r old new)))"
  by (auto simp: edit_phone_def find_phone_None_iff Phone_eq distinct_list_update
      split: option.splits)

lemma Record_init_phones: "Record_init n = Inr r \<Longrightarrow> phones r = []"
  by (auto simp: Record_init_def split: sum.splits)

section \<open>Phone validation\<close>




section \<open>Adding, removing and editing phones\<close>

text \<open>
  Claim C6. For a string \<open>p\<close> of ten decimal digits: when \<open>p\<close> is not on the record,
  \<open>add_phone\<close> succeeds; whenever it succeeds, the new list is the old one with \<open>p\<close>
  appended at the end, and adding \<open>p\<close> again fails with the duplicate error and leaves
  the record as it is.
\<close>

theorem add_phone_twice:
  assumes "length p = 10" and "list_all is_ascii_digit p"
  shows "(p \<notin> set (phones r) \<longrightarrow> add_phone r p = (Inr (), r\<lparr>phones := phones r @ [p]\<rparr>)) \<and>
         (\<forall>r'. add_phone r p = (Inr (), r') \<longrightarrow>
            r' = r\<lparr>phones := phones r @ [p]\<rparr> \<and>
            add_phone r' p = (Inl (ValueError msg_phone_in_use), r'))"
  using assms ascii_isdigit [of p]
  by (auto simp: add_phone_def find_phone_None_iff Phone_eq split: if_splits)

theorem add_phone_twice_witness:
  "length ''1234567890'' = 10 \<and> list_all is_ascii_digit ''1234567890'' \<and>
   add_phone \<lparr>name = ''Ann'', phones = [], birthday = None\<rparr> ''1234567890''
     = (Inr (), \<lparr>name = ''Ann'', phones = [''1234567890''], birthday = None\<rparr>) \<and>
   add_phone \<lparr>name = ''Ann'', phones = [''1234567890''], birthday = None\<rparr> ''1234567890''
     = (Inl (ValueError msg_phone_in_use),
        \<lparr>name = ''Ann'', phones = [''1234567890''], birthday = None\<rparr>)"
proof -
  let ?r = "\<lparr>name = ''Ann'', phones = [], birthday = None\<rparr>"
  let ?p = "''1234567890''"
  have h1: "length ?p = 10" by simp
  have h2: "list_all is_ascii_digit ?p" by (simp add: is_ascii_digit_def)
  note c6 = add_phone_twice [OF h1 h2, of ?r]
  from c6 [THEN conjunct1]
  have a: "add_phone ?r ?p = (Inr (), ?r\<lparr>phones := phones ?r @ [?p]\<rparr>)"
    by simp
  from c6 [THEN conjunct2, rule_format, OF a]
  have b: "add_phone (?r\<lparr>phones := phones ?r @ [?p]\<rparr>) ?p
      = (Inl (ValueError msg_phone_in_use), ?r\<lparr>phones := phones ?r @ [?p]\<rparr>)"
    by (rule conjunct2)
  from a b h1 h2 show ?thesis by simp
qed

text \<open>
  Claim C1, as amended. \<open>edit_phone\<close> fails with the not-found error when the old number
  is not on the record; otherwise with the duplicate error when the new number is the
  value of any phone of the record, the edited one included; otherwise with the validation
  error when the new number is not ten digits; otherwise it succeeds and the new number
  stands at the position of the first phone that held the old one, every other position
  unchanged.
\<close>

theorem edit_phone_cases:
  "(old \<notin> set (phones r) \<longrightarrow>
      edit_phone r old new = (Inl (ValueError msg_phone_not_found), r)) \<and>
   (old \<in> set (phones r) \<and> new \<in> set (phones r) \<longrightarrow>
      edit_phone r old new = (Inl (ValueError msg_phone_in_use), r)) \<and>
   (old \<in> set (phones r) \<and> new \<notin> set (phones r) \<and>
      \<not> (length new = 10 \<and> list_all char_isdigit new) \<longrightarrow>
      edit_phone r old new = (Inl (ValueError msg_phone_invalid), r)) \<and>
   (old \<in> set (phones r) \<and> new \<notin> set (phones r) \<and>
      length new = 10 \<and> list_all char_isdigit new \<longrightarrow>
      (\<exists>i<length (phones r). phones r ! i = old \<and> (\<forall>j<i. phones r ! j \<noteq> old) \<and>
         edit_phone r old new = (Inr True, r\<lparr>phones := (phones r)[i := new]\<rparr>)))"
proof (cases "find_phone r old")
  case None
  then have "old \<notin> set (phones r)" by (simp add: find_phone_None_iff)
  with None show ?thesis by (simp add: edit_phone_def)
next
  case (Some i)
  then have old: "old \<in> set (phones r)"
    using find_phone_None_iff [of r old] by simp
  from Some have i: "i < length (phones r)" "phones r ! i = old" "\<forall>j<i. phones r ! j \<noteq> old"
    using first_index_SomeD [of "\<lambda>v. v = old" "phones r" i] by (auto simp: find_phone_def)
  show ?thesis
  proof (cases "new \<in> set (phones r)")
    case True
    then have "find_phone r new \<noteq> None" by (simp add: find_phone_None_iff)
    with Some old True show ?thesis by (simp add: edit_phone_def)
  next
    case False
    then have "find_phone r new = None" by (simp add: find_phone_None_iff)
    with Some old False i show ?thesis
      by (auto simp: edit_phone_def Phone_eq)
  qed
qed

theorem edit_phone_cases_witness:
  "edit_phone \<lparr>name = ''Ann'', phones = [''1111111111'', ''2222222222''], birthday = None\<rparr>
     ''3333333333'' ''4444444444''
     = (Inl (ValueError msg_phone_not_found),
        \<lparr>name = ''Ann'', phones = [''1111111111'', ''2222222222''], birthday = None\<rparr>) \<and>
   edit_phone \<lparr>name = ''Ann'', phones = [''1111111111'', ''2222222222''], birthday = None\<rparr>
     ''1111111111'' ''2222222222''
     = (Inl (ValueError msg_phone_in_use),
        \<lparr>name = ''Ann'', phones = [''1111111111'', ''2222222222''], birthday = None\<rparr>) \<and>
   edit_phone \<lparr>name = ''Ann'', phones = [''1111111111'', ''2222222222''], birthday = None\<rparr>
     ''1111111111'' ''12345''
     = (Inl (ValueError msg_phone_invalid),
        \<lparr>name = ''Ann'', phones = [''1111111111'', ''2222222222''], birthday = None\<rparr>) \<and>
   edit_phone \<lparr>name = ''Ann'', phones = [''1111111111'', ''2222222222''], birthday = None\<rparr>
     ''2222222222'' ''4444444444''
     = (Inr True,
        \<lparr>name = ''Ann'', phones = [''1111111111'', ''4444444444''], birthday = None\<rparr>)"
proof -
  let ?r = "\<lparr>name = ''Ann'', phones = [''1111111111'', ''2222222222''], birthday = None\<rparr>"
  have a: "edit_phone ?r ''3333333333'' ''4444444444'' = (Inl (ValueError msg_phone_not_found), ?r)"
    using edit_phone_cases [of "''3333333333''" ?r "''4444444444''", THEN conjunct1] by simp
  have b: "edit_phone ?r ''1111111111'' ''2222222222'' = (Inl (ValueError msg_phone_in_use), ?r)"
    using edit_phone_cases [of "''1111111111''" ?r "''2222222222''", THEN conjunct2, THEN conjunct1]
    by simp
  have c: "edit_phone ?r ''1111111111'' ''12345'' = (Inl (ValueError msg_phone_invalid), ?r)"
    using edit_phone_cases [of "''1111111111''" ?r "''12345''", THEN conjunct2, THEN conjunct2,
        THEN conjunct1]
    by simp
  have "\<exists>i<length (phones ?r). phones ?r ! i = ''2222222222'' \<and>
          (\<forall>j<i. phones ?r ! j \<noteq> ''2222222222'') \<and>
          edit_phone ?r ''2222222222'' ''4444444444''
            = (Inr True, ?r\<lparr>phones := (phones ?r)[i := ''4444444444'']\<rparr>)"
    using edit_phone_cases [of "''2222222222''" ?r "''4444444444''", THEN conjunct2, THEN conjunct2,
        THEN conjunct2]
    by (simp add: char_isdigit_def is_ascii_digit_def)
  then obtain i where i: "i < length (phones ?r)" "phones ?r ! i = ''2222222222''"
    and e: "edit_phone ?r ''2222222222'' ''4444444444''
            = (Inr True, ?r\<lparr>phones := (phones ?r)[i := ''4444444444'']\<rparr>)"
    by blast
  from i have "i = 1" by (cases i) auto
  with e have d: "edit_phone ?r ''2222222222'' ''4444444444''
      = (Inr True, \<lparr>name = ''Ann'', phones = [''1111111111'', ''4444444444''], birthday = None\<rparr>)"
    by simp
  from a b c d show ?thesis by simp
qed

text \<open>
  Claim C1 as stated fails: editing a stored phone to its own value is rejected with the
  duplicate error.
\<close>

theorem edit_phone_same_number_rejected:
  "find_phone \<lparr>name = ''Ann'', phones = [''1234567890''], birthday = None\<rparr> ''1234567890'' = Some 0 \<and>
   edit_phone \<lparr>name = ''Ann'', phones = [''1234567890''], birthday = None\<rparr> ''1234567890'' ''1234567890''
     = (Inl (ValueError msg_phone_in_use), \<lparr>name = ''Ann'', phones = [''1234567890''], birthday = None\<rparr>)"
  by (simp add: edit_phone_def find_phone_def)

text \<open>
  Claim C2. Whenever \<open>add_phone\<close>, \<open>edit_phone\<close> or \<open>add_birthday\<close> returns an error the
  record is as before the call, and whenever \<open>remove_phone\<close> or \<open>delete\<close> reports that
  nothing was removed the record or the book is as before. \<open>add_record\<close>, \<open>remove_phone\<close>
  and \<open>delete\<close> have no failing path.
\<close>

theorem failed_operation_keeps_state:
  "(\<forall>e. fst (add_phone r p) = Inl e \<longrightarrow> snd (add_phone r p) = r) \<and>
   (\<forall>e. fst (edit_phone r old new) = Inl e \<longrightarrow> snd (edit_phone r old new) = r) \<and>
   (\<forall>e. fst (add_birthday r s) = Inl e \<longrightarrow> snd (add_birthday r s) = r) \<and>
   (\<not> fst (remove_phone r q) \<longrightarrow> snd (remove_phone r q) = r) \<and>
   (\<not> fst (delete book n) \<longrightarrow> snd (delete book n) = book)"
  by (auto simp: add_phone_def edit_phone_def add_birthday_def remove_phone_def delete_def
      split: option.splits sum.splits if_splits)

theorem failed_operation_keeps_state_witness:
  "fst (add_phone \<lparr>name = ''Ann'', phones = [''1111111111''], birthday = None\<rparr> ''1111111111'')
     = Inl (ValueError msg_phone_in_use) \<and>
   snd (add_phone \<lparr>name = ''Ann'', phones = [''1111111111''], birthday = None\<rparr> ''1111111111'')
     = \<lparr>name = ''Ann'', phones = [''1111111111''], birthday = None\<rparr> \<and>
   fst (edit_phone \<lparr>name = ''Ann'', phones = [''1111111111''], birthday = None\<rparr>
          ''2222222222'' ''3333333333'')
     = Inl (ValueError msg_phone_not_found) \<and>
   snd (edit_phone \<lparr>name = ''Ann'', phones = [''1111111111''], birthday = None\<rparr>
          ''2222222222'' ''3333333333'')
     = \<lparr>name = ''Ann'', phones = [''1111111111''], birthday = None\<rparr> \<and>
   fst (add_birthday \<lparr>name = ''Ann'', phones = [''1111111111''], birthday = None\<rparr> ''1990-12-25'')
     = Inl (ValueError msg_date_format) \<and>
   snd (add_birthday \<lparr>name = ''Ann'', phones = [''1111111111''], birthday = None\<rparr> ''1990-12-25'')
     = \<lparr>name = ''Ann'', phones = [''1111111111''], birthday = None\<rparr> \<and>
   \<not> fst (remove_phone \<lparr>name = ''Ann'', phones = [''1111111111''], birthday = None\<rparr>
            ''2222222222'') \<and>
   snd (remove_phone \<lparr>name = ''Ann'', phones = [''1111111111''], birthday = None\<rparr> ''2222222222'')
     = \<lparr>name = ''Ann'', phones = [''1111111111''], birthday = None\<rparr> \<and>
   \<not> fst (delete [(''Ann'', \<lparr>name = ''Ann'', phones = [''1111111111''], birthday = None\<rparr>)]
            ''Bob'') \<and>
   snd (delete [(''Ann'', \<lparr>name = ''Ann'', phones = [''1111111111''], birthday = None\<rparr>)] ''Bob'')
     = [(''Ann'', \<lparr>name = ''Ann'', phones = [''1111111111''], birthday = None\<rparr>)]"
proof -
  let ?r = "\<lparr>name = ''Ann'', phones = [''1111111111''], birthday = None\<rparr>"
  note c2 = failed_operation_keeps_state [of ?r "''1111111111''" "''2222222222''" "''3333333333''" "''1990-12-25''"
      "''2222222222''" "[(''Ann'', ?r)]" "''Bob''"]
  have a: "fst (add_phone ?r ''1111111111'') = Inl (ValueError msg_phone_in_use)"
    by (simp add: add_phone_def find_phone_def)
  have b: "fst (edit_phone ?r ''2222222222'' ''3333333333'') = Inl (ValueError msg_phone_not_found)"
    by (simp add: edit_phone_def find_phone_def)
  have c: "fst (add_birthday ?r ''1990-12-25'') = Inl (ValueError msg_date_format)"
    by code_simp
  have d: "\<not> fst (remove_phone ?r ''2222222222'')"
    by (simp add: remove_phone_def find_phone_def)
  have e: "\<not> fst (delete [(''Ann'', ?r)] ''Bob'')"
    by (simp add: delete_def)
  note a' = c2 [THEN conjunct1, rule_format, OF a]
  note b' = c2 [THEN conjunct2, THEN conjunct1, rule_format, OF b]
  note c' = c2 [THEN conjunct2, THEN conjunct2, THEN conjunct1, rule_format, OF c]
  note d' = c2 [THEN conjunct2, THEN conjunct2, THEN conjunct2, THEN conjunct1, rule_format, OF d]
  note e' = c2 [THEN conjunct2, THEN conjunct2, THEN conjunct2, THEN conjunct2, rule_format, OF e]
  show ?thesis
    by (intro conjI a a' b b' c c' d d' e e')
qed

text \<open>
  Claim C7. \<open>delete\<close> returns true exactly when the name is a key, and the book is then
  the old one without that entry; otherwise it returns false and the book is unchanged.
  \<open>remove_phone\<close> returns false and changes nothing when the number is absent; when it
  is present it returns true and takes out its first occurrence, so on a record whose
  phones are distinct the number is gone and the other phones keep their order.
\<close>

theorem delete_and_remove_phone:
  "(n \<in> fst ` set book \<longrightarrow>
      fst (delete book n) \<and> find (snd (delete book n)) n = None \<and>
      snd (delete book n) = filter (\<lambda>(k, v). k \<noteq> n) book) \<and>
   (n \<notin> fst ` set book \<longrightarrow> delete book n = (False, book)) \<and>
   (p \<notin> set (phones r) \<longrightarrow> remove_phone r p = (False, r)) \<and>
   (p \<in> set (phones r) \<longrightarrow>
      remove_phone r p = (True, r\<lparr>phones := remove1 p (phones r)\<rparr>)) \<and>
   (p \<in> set (phones r) \<and> distinct (phones r) \<longrightarrow>
      p \<notin> set (phones (snd (remove_phone r p))) \<and>
      phones (snd (remove_phone r p)) = filter (\<lambda>q. q \<noteq> p) (phones r))"
proof -
  have del: "n \<in> fst ` set book \<Longrightarrow> find (snd (delete book n)) n = None"
    by (simp add: delete_def find_def AList.delete_conv')
  have rem: "p \<in> set (phones r) \<Longrightarrow> remove_phone r p = (True, r\<lparr>phones := remove1 p (phones r)\<rparr>)"
  proof -
    assume "p \<in> set (phones r)"
    then obtain i where i: "find_phone r p = Some i"
      using find_phone_None_iff [of r p] by auto
    then have "take i (phones r) @ drop (Suc i) (phones r) = remove1 p (phones r)"
      by (simp add: find_phone_def first_index_remove1)
    with i show ?thesis by (simp add: remove_phone_def)
  qed
  have abs: "p \<notin> set (phones r) \<Longrightarrow> remove_phone r p = (False, r)"
    by (simp add: remove_phone_def find_phone_None_iff [symmetric])
  have flt: "filter ((\<noteq>) p) (phones r) = filter (\<lambda>q. q \<noteq> p) (phones r)"
    by (rule filter_cong) auto
  show ?thesis
    using del rem abs flt
    by (auto simp: delete_def delete_filter distinct_remove1_removeAll removeAll_filter_not_eq)
qed

theorem delete_and_remove_phone_witness:
  "delete [(''Ann'', \<lparr>name = ''Ann'', phones = [], birthday = None\<rparr>),
           (''Bob'', \<lparr>name = ''Bob'', phones = [], birthday = None\<rparr>)] ''Ann''
     = (True, [(''Bob'', \<lparr>name = ''Bob'', phones = [], birthday = None\<rparr>)]) \<and>
   delete [(''Bob'', \<lparr>name = ''Bob'', phones = [], birthday = None\<rparr>)] ''Ann''
     = (False, [(''Bob'', \<lparr>name = ''Bob'', phones = [], birthday = None\<rparr>)]) \<and>
   remove_phone \<lparr>name = ''Ann'', phones = [''1111111111'', ''2222222222'', ''3333333333''],
                 birthday = None\<rparr> ''4444444444''
     = (False, \<lparr>name = ''Ann'', phones = [''1111111111'', ''2222222222'', ''3333333333''],
                 birthday = None\<rparr>) \<and>
   remove_phone \<lparr>name = ''Ann'', phones = [''1111111111'', ''2222222222'', ''3333333333''],
                 birthday = None\<rparr> ''2222222222''
     = (True, \<lparr>name = ''Ann'', phones = [''1111111111'', ''3333333333''], birthday = None\<rparr>)"
proof -
  let ?a = "\<lparr>name = ''Ann'', phones = [], birthday = None\<rparr>"
  let ?b = "\<lparr>name = ''Bob'', phones = [], birthday = None\<rparr>"
  let ?r = "\<lparr>name = ''Ann'', phones = [''1111111111'', ''2222222222'', ''3333333333''],
             birthday = None\<rparr>"
  note p1 = delete_and_remove_phone [of "''Ann''" "[(''Ann'', ?a), (''Bob'', ?b)]" "''4444444444''" ?r]
  note p2 = delete_and_remove_phone [of "''Ann''" "[(''Bob'', ?b)]" "''2222222222''" ?r]
  have a: "delete [(''Ann'', ?a), (''Bob'', ?b)] ''Ann'' = (True, [(''Bob'', ?b)])"
    using p1 [THEN conjunct1] by (simp add: prod_eq_iff)
  have b: "delete [(''Bob'', ?b)] ''Ann'' = (False, [(''Bob'', ?b)])"
    using p2 [THEN conjunct2, THEN conjunct1] by simp
  have c: "remove_phone ?r ''4444444444'' = (False, ?r)"
    using p1 [THEN conjunct2, THEN conjunct2, THEN conjunct1] by simp
  have d: "remove_phone ?r ''2222222222''
      = (True, \<lparr>name = ''Ann'', phones = [''1111111111'', ''3333333333''], birthday = None\<rparr>)"
    using p2 [THEN conjunct2, THEN conjunct2, THEN conjunct2, THEN conjunct1] by simp
  from a b c d show ?thesis by simp
qed

section \<open>Names as keys\<close>

text \<open>
  Claim C10. Let \<open>n\<close> be a name with outer whitespace from which \<open>Record_init\<close> makes a
  record, and let the keys of the book be stripped. After \<open>add_record\<close> the record is
  found under \<open>strip n\<close>, while \<open>find\<close> with \<open>n\<close> itself finds nothing and \<open>delete\<close> with
  \<open>n\<close> returns false and leaves the book as it is.
\<close>

theorem untrimmed_name_lookup:
  assumes "has_outer_whitespace n" and "Record_init n = Inr r" and "keys_stripped book"
  shows "find (add_record book r) (strip n) = Some r \<and>
         find (add_record book r) n = None \<and>
         delete (add_record book r) n = (False, add_record book r)"
proof -
  from assms(2) have nm: "name r = strip n"
    by (auto simp: Record_init_def Name_def split: if_splits)
  from assms(1) have ne: "strip n \<noteq> n" by (rule outer_whitespace_not_stripped)
  from assms(3) ne have notin: "n \<notin> fst ` set book"
    by (auto simp: keys_stripped_def list_all_iff)
  then have "map_of book n = None" by (simp add: map_of_eq_None_iff)
  with nm ne notin show ?thesis
    by (auto simp: add_record_def find_def delete_def update_conv' dom_update)
qed

theorem untrimmed_name_lookup_witness:
  "has_outer_whitespace '' Ann'' \<and>
   Record_init '' Ann'' = Inr \<lparr>name = ''Ann'', phones = [], birthday = None\<rparr> \<and>
   keys_stripped [] \<and>
   find (add_record [] \<lparr>name = ''Ann'', phones = [], birthday = None\<rparr>) ''Ann''
     = Some \<lparr>name = ''Ann'', phones = [], birthday = None\<rparr> \<and>
   find (add_record [] \<lparr>name = ''Ann'', phones = [], birthday = None\<rparr>) '' Ann'' = None \<and>
   delete (add_record [] \<lparr>name = ''Ann'', phones = [], birthday = None\<rparr>) '' Ann''
     = (False, add_record [] \<lparr>name = ''Ann'', phones = [], birthday = None\<rparr>)"
proof -
  have h1: "has_outer_whitespace '' Ann''" by code_simp
  have h2: "Record_init '' Ann'' = Inr \<lparr>name = ''Ann'', phones = [], birthday = None\<rparr>"
    by code_simp
  have h3: "keys_stripped []" by (simp add: keys_stripped_def)
  have s: "strip '' Ann'' = ''Ann''" by code_simp
  show ?thesis
    using h1 h2 h3 s untrimmed_name_lookup [OF h1 h2 h3] by simp
qed

section \<open>Calendar facts\<close>

subsection \<open>Ordinals of consecutive days\<close>

lemma div_step:
  fixes y k :: int
  assumes "0 < k"
  shows "y div k = (y - 1) div k + (if y mod k = 0 then 1 else 0)"
proof -
  define q where "q = (y - 1) div k"
  define r where "r = (y - 1) mod k"
  have "y - 1 = k * q + r" by (simp add: q_def r_def)
  then have y: "y = k * q + (r + 1)" by linarith
  have r: "0 \<le> r" "r < k" using assms by (simp_all add: r_def)
  show ?thesis
  proof (cases "r + 1 = k")
    case True
    with y have y': "y = k * (q + 1) + 0" by (simp add: algebra_simps)
    have "y div k = q + 1" by (rule int_div_pos_eq [OF y']) (use assms in simp_all)
    moreover have "y mod k = 0" by (rule int_mod_pos_eq [OF y']) (use assms in simp_all)
    ultimately show ?thesis by (simp add: q_def)
  next
    case False
    with r have r': "0 \<le> r + 1" "r + 1 < k" by auto
    have "y div k = q" by (rule int_div_pos_eq [OF y r'])
    moreover have "y mod k = r + 1" by (rule int_mod_pos_eq [OF y r'])
    ultimately show ?thesis using r by (simp add: q_def)
  qed
qed

lemma mod_400_100: "(y::int) mod 400 = 0 \<Longrightarrow> y mod 100 = 0"
  using mod_mod_cancel [of 100 400 y] by simp

lemma mod_100_4: "(y::int) mod 100 = 0 \<Longrightarrow> y mod 4 = 0"
  using mod_mod_cancel [of 4 100 y] by simp


lemma leap_indicator:
  "(C \<longrightarrow> B) \<Longrightarrow> (B \<longrightarrow> A) \<Longrightarrow>
   (if A then 1 else 0) - (if B then 1 else 0) + (if C then 1 else 0)
     = (if A \<and> (\<not> B \<or> C) then (1::int) else 0)"
  by (cases A; cases B; cases C; simp)

lemma year_step_sum:
  fixes y :: int
  assumes "d4 = p4 + i4" and "d100 = p100 + i100" and "d400 = p400 + i400"
  shows "y * 365 + d4 - d100 + d400
           = ((y - 1) * 365 + p4 - p100 + p400) + 365 + (i4 - i100 + i400)"
  using assms by (simp add: algebra_simps)

lemma days_before_next_year:
  "days_before_year (y + 1) = days_before_year y + 365 + (if is_leap y then 1 else 0)"
proof -
  have a: "y div 4 = (y - 1) div 4 + (if y mod 4 = 0 then 1 else 0)" by (rule div_step) simp
  have b: "y div 100 = (y - 1) div 100 + (if y mod 100 = 0 then 1 else 0)" by (rule div_step) simp
  have c: "y div 400 = (y - 1) div 400 + (if y mod 400 = 0 then 1 else 0)" by (rule div_step) simp
  have "y + 1 - 1 = y" by simp
  then have d: "days_before_year (y + 1) = y * 365 + y div 4 - y div 100 + y div 400"
    by (simp only: days_before_year_def)
  have l: "(if y mod 4 = 0 then 1 else 0) - (if y mod 100 = 0 then 1 else 0)
           + (if y mod 400 = 0 then 1 else 0) = (if is_leap y then (1::int) else 0)"
    unfolding is_leap_def
    by (rule leap_indicator [of "y mod 400 = 0" "y mod 100 = 0" "y mod 4 = 0"])
      (rule impI, erule mod_400_100, rule impI, erule mod_100_4)
  show ?thesis
    unfolding d year_step_sum [OF a b c] l
    by (simp only: days_before_year_def)
qed

lemma make_date_Inr:
  "make_date y m d = Inr dt \<Longrightarrow> dt = \<lparr>year = y, month = m, day = d\<rparr> \<and> check_date_fields y m d"
  by (auto simp: make_date_def split: if_splits)

lemma replace_year_Inr:
  "replace_year b y = Inr d \<Longrightarrow> valid_date d \<and> year d = y \<and> month d = month b \<and> day d = day b"
  by (auto simp: replace_year_def valid_date_def dest!: make_date_Inr)

lemma birthday_this_year_Inr:
  "birthday_this_year today b = Inr d \<Longrightarrow> valid_date d \<and> month d = month b \<and> day d = day b"
  by (auto simp: birthday_this_year_def split: sum.splits if_splits dest!: replace_year_Inr)

lemma month_cases:
  "1 \<le> m \<Longrightarrow> m \<le> (12::int) \<Longrightarrow>
   m = 1 \<or> m = 2 \<or> m = 3 \<or> m = 4 \<or> m = 5 \<or> m = 6 \<or> m = 7 \<or> m = 8 \<or> m = 9 \<or> m = 10 \<or> m = 11 \<or> m = 12"
  by arith

lemma toordinal_next_day:
  assumes "valid_date dt"
  shows "toordinal (next_day dt) = toordinal dt + 1"
proof -
  from assms have m: "1 \<le> month dt" "month dt \<le> 12"
    by (auto simp: valid_date_def check_date_fields_def)
  from assms have d: "day dt \<le> days_in_month (year dt) (month dt)"
    by (auto simp: valid_date_def check_date_fields_def)
  from month_cases [OF m] d show ?thesis
    by (elim disjE)
      (simp_all add: next_day_def toordinal_def days_in_month_def days_before_month_def
        DAYS_IN_MONTH_def DAYS_BEFORE_MONTH_def days_before_next_year)
qed

lemma valid_next_day:
  assumes "valid_date dt" and "year (next_day dt) \<le> MAXYEAR"
  shows "valid_date (next_day dt)"
proof -
  from assms(1) have m: "1 \<le> month dt" "month dt \<le> 12"
    by (auto simp: valid_date_def check_date_fields_def)
  from month_cases [OF m] assms show ?thesis
    by (elim disjE)
      (simp_all add: next_day_def valid_date_def check_date_fields_def days_in_month_def
        DAYS_IN_MONTH_def MINYEAR_def MAXYEAR_def split: if_splits)
qed

lemma add_days_Inr:
  "add_days dt n = Inr c \<Longrightarrow> valid_date dt \<Longrightarrow> valid_date c \<and> toordinal c = toordinal dt + int n"
proof (induction n arbitrary: dt)
  case 0
  then show ?case by simp
next
  case (Suc n)
  from Suc.prems(1) have y: "year (next_day dt) \<le> MAXYEAR" and a: "add_days (next_day dt) n = Inr c"
    by (auto split: if_splits)
  from valid_next_day [OF Suc.prems(2) y] have v: "valid_date (next_day dt)" .
  from Suc.IH [OF a v] toordinal_next_day [OF Suc.prems(2)] show ?case by simp
qed

lemma congratulation_date_Inr:
  assumes "congratulation_date d = Inr c" and "valid_date d"
  shows "valid_date c \<and>
         toordinal c = toordinal d + (if weekday d = 5 then 2 else if weekday d = 6 then 1 else 0)"
proof -
  have two: "int 2 = 2" and one: "int 1 = 1" by simp_all
  show ?thesis
  proof (cases "weekday d = 5")
    case True
    with assms(1) have "add_days d 2 = Inr c" by (simp add: congratulation_date_def)
    from add_days_Inr [OF this assms(2)] True show ?thesis by simp
  next
    case False
    show ?thesis
    proof (cases "weekday d = 6")
      case True
      with False assms(1) have "add_days d 1 = Inr c" by (simp add: congratulation_date_def)
      from add_days_Inr [OF this assms(2)] True False show ?thesis by simp
    next
      case n6: False
      with False assms show ?thesis by (simp add: congratulation_date_def)
    qed
  qed
qed

lemma next_day_overflow:
  assumes "valid_date dt" and "year (next_day dt) > MAXYEAR"
  shows "dt = \<lparr>year = 9999, month = 12, day = 31\<rparr>"
proof -
  from assms(1) have v: "year dt \<le> 9999" "month dt \<le> 12" "day dt \<le> days_in_month (year dt) (month dt)"
    by (auto simp: valid_date_def check_date_fields_def MAXYEAR_def)
  from assms(2) v have "year dt = 9999 \<and> month dt = 12 \<and> day dt = 31"
    by (auto simp: next_day_def MAXYEAR_def days_in_month_def DAYS_IN_MONTH_def split: if_splits)
  then show ?thesis by (cases dt) simp
qed

lemma weekday_last_days:
  "weekday \<lparr>year = 9999, month = 12, day = 31\<rparr> = 4"
  "weekday \<lparr>year = 9999, month = 12, day = 30\<rparr> = 3"
  "next_day \<lparr>year = 9999, month = 12, day = 30\<rparr> = \<lparr>year = 9999, month = 12, day = 31\<rparr>"
  by code_simp+

subsection \<open>The weekend shift never leaves the calendar\<close>

lemma next_day_is_last:
  assumes "valid_date dt" and "next_day dt = \<lparr>year = 9999, month = 12, day = 31\<rparr>"
  shows "dt = \<lparr>year = 9999, month = 12, day = 30\<rparr>"
proof (cases dt)
  case (fields y m d)
  with assms(2) show ?thesis
    by (auto simp: next_day_def split: if_splits)
qed

lemma congratulation_date_total:
  assumes "valid_date d"
  shows "\<exists>c. congratulation_date d = Inr c"
proof -
  have n1: "year (next_day d) \<le> MAXYEAR" if "weekday d \<noteq> 4"
  proof (rule ccontr)
    assume "\<not> year (next_day d) \<le> MAXYEAR"
    then have "year (next_day d) > MAXYEAR" by simp
    from next_day_overflow [OF assms this] that show False
      by (simp add: weekday_last_days)
  qed
  have n2: "year (next_day (next_day d)) \<le> MAXYEAR" if "weekday d \<noteq> 4" "weekday d \<noteq> 3"
  proof (rule ccontr)
    assume "\<not> year (next_day (next_day d)) \<le> MAXYEAR"
    then have gt: "year (next_day (next_day d)) > MAXYEAR" by simp
    from valid_next_day [OF assms n1 [OF that(1)]] have "valid_date (next_day d)" .
    from next_day_overflow [OF this gt] have "next_day d = \<lparr>year = 9999, month = 12, day = 31\<rparr>" .
    from next_day_is_last [OF assms this] that(2) show False
      by (simp add: weekday_last_days)
  qed
  have two: "(2::nat) = Suc (Suc 0)" by simp
  show ?thesis
  proof (cases "weekday d = 5")
    case True
    then have "weekday d \<noteq> 4" "weekday d \<noteq> 3" by simp_all
    from n1 [OF this(1)] n2 [OF this] True show ?thesis
      by (simp add: congratulation_date_def two)
  next
    case False
    show ?thesis
    proof (cases "weekday d = 6")
      case True
      then have "weekday d \<noteq> 4" by simp
      from n1 [OF this] True False show ?thesis
        by (simp add: congratulation_date_def)
    next
      case n6: False
      with False show ?thesis by (simp add: congratulation_date_def)
    qed
  qed
qed

lemma contact_entry_in_window:
  assumes "in_window today c"
  shows "\<exists>b d cd. birthday c = Some b \<and> birthday_this_year today b = Inr d \<and>
           congratulation_date d = Inr cd \<and>
           contact_entry today c = Inr (Some (name c, strftime cd))"
proof -
  from assms obtain b d where b: "birthday c = Some b" and d: "birthday_this_year today b = Inr d"
    and w: "0 \<le> toordinal d - toordinal today" "toordinal d - toordinal today \<le> 7"
    by (auto simp: in_window_def split: option.splits sum.splits)
  from birthday_this_year_Inr [OF d] have "valid_date d" by simp
  from congratulation_date_total [OF this] obtain cd where cd: "congratulation_date d = Inr cd" ..
  from b d w cd have "contact_entry today c = Inr (Some (name c, strftime cd))"
    by (simp add: contact_entry_def)
  with b d cd show ?thesis by blast
qed




lemma upcoming_loop_acc:
  "upcoming_loop today cs acc = Inr out \<Longrightarrow> set acc \<subseteq> set out"
proof (induction cs arbitrary: acc)
  case Nil
  then show ?case by simp
next
  case (Cons c cs)
  then show ?case
    by (fastforce split: sum.splits option.splits)
qed

lemma upcoming_loop_mem:
  "upcoming_loop today cs acc = Inr out \<Longrightarrow> c \<in> set cs \<Longrightarrow>
   contact_entry today c = Inr (Some e) \<Longrightarrow> e \<in> set out"
proof (induction cs arbitrary: acc)
  case Nil
  then show ?case by simp
next
  case (Cons x cs)
  show ?case
  proof (cases "c = x")
    case True
    with Cons.prems have "upcoming_loop today cs (acc @ [e]) = Inr out" by simp
    from upcoming_loop_acc [OF this] show ?thesis by simp
  next
    case False
    with Cons.prems have c: "c \<in> set cs" by simp
    from Cons.prems(1) obtain acc' where "upcoming_loop today cs acc' = Inr out"
      by (auto split: sum.splits option.splits)
    from Cons.IH [OF this c Cons.prems(3)] show ?thesis .
  qed
qed

lemma upcoming_loop_Inl:
  "c \<in> set cs \<Longrightarrow> contact_entry today c = Inl e \<Longrightarrow> \<exists>e'. upcoming_loop today cs acc = Inl e'"
proof (induction cs arbitrary: acc)
  case Nil
  then show ?case by simp
next
  case (Cons x cs)
  show ?case
  proof (cases "contact_entry today x")
    case (Inl e')
    then show ?thesis by simp
  next
    case (Inr eo)
    with Cons.prems have "c \<in> set cs" by auto
    from Cons.IH [OF this Cons.prems(2)] Inr show ?thesis
      by (cases eo) simp_all
  qed
qed


section \<open>Upcoming birthdays\<close>

lemma feb29_birthday_this_year:
  assumes "month b = 2" and "day b = 29"
    and "\<not> is_leap (year today) \<or>
         (date_less \<lparr>year = year today, month = 2, day = 29\<rparr> today \<and> \<not> is_leap (year today + 1))"
  shows "birthday_this_year today b = Inl (ValueError msg_out_of_range)"
proof -
  have nl: "\<not> is_leap y \<Longrightarrow> make_date y 2 29 = Inl (ValueError msg_out_of_range)" for y
    by (simp add: make_date_def check_date_fields_def days_in_month_def DAYS_IN_MONTH_def)
  have ok: "make_date y 2 29 = Inl (ValueError msg_out_of_range) \<or>
            make_date y 2 29 = Inr \<lparr>year = y, month = 2, day = 29\<rparr>" for y
    by (simp add: make_date_def)
  from assms(3) show ?thesis
  proof
    assume "\<not> is_leap (year today)"
    from nl [OF this] assms(1,2) show ?thesis
      by (simp add: birthday_this_year_def replace_year_def)
  next
    assume a: "date_less \<lparr>year = year today, month = 2, day = 29\<rparr> today \<and> \<not> is_leap (year today + 1)"
    from ok [of "year today"] show ?thesis
    proof
      assume "make_date (year today) 2 29 = Inl (ValueError msg_out_of_range)"
      with assms(1,2) show ?thesis
        by (simp add: birthday_this_year_def replace_year_def)
    next
      assume "make_date (year today) 2 29 = Inr \<lparr>year = year today, month = 2, day = 29\<rparr>"
      with assms(1,2) a nl [of "year today + 1"] show ?thesis
        by (simp add: birthday_this_year_def replace_year_def)
    qed
  qed
qed

lemma birthday_this_year_Inl:
  "birthday_this_year today b = Inl e \<Longrightarrow> e = ValueError msg_out_of_range"
  by (auto simp: birthday_this_year_def replace_year_def make_date_def split: sum.splits if_splits)

lemma contact_entry_Inl:
  assumes "contact_entry today c = Inl e"
  shows "e = ValueError msg_out_of_range"
proof (cases "birthday c")
  case None
  with assms show ?thesis by (simp add: contact_entry_def)
next
  case (Some b)
  show ?thesis
  proof (cases "birthday_this_year today b")
    case (Inl e')
    with Some assms birthday_this_year_Inl [OF Inl] show ?thesis
      by (simp add: contact_entry_def)
  next
    case (Inr d)
    from birthday_this_year_Inr [OF Inr] have "valid_date d" by simp
    from congratulation_date_total [OF this] obtain cd where "congratulation_date d = Inr cd" ..
    with Some Inr assms show ?thesis
      by (simp add: contact_entry_def Let_def split: if_splits)
  qed
qed

lemma upcoming_loop_Inl_source:
  "upcoming_loop today cs acc = Inl e \<Longrightarrow> \<exists>c \<in> set cs. contact_entry today c = Inl e"
proof (induction cs arbitrary: acc)
  case Nil
  then show ?case by simp
next
  case (Cons x cs)
  then show ?case
    by (fastforce split: sum.splits option.splits)
qed


text \<open>
  Claim C9. When the book contains a contact born on 29 February and the current year is
  not a leap year, or 29 February of the current year is already past and the following
  year is not a leap year, the year replacement raises \<open>ValueError\<close> and
  \<open>get_upcoming_birthdays\<close> returns no list, whatever else the book contains.
\<close>

theorem leap_day_birthday_fails:
  assumes "(k, c) \<in> set book" and "birthday c = Some b" and "month b = 2" and "day b = 29"
    and "\<not> is_leap (year today) \<or>
         (date_less \<lparr>year = year today, month = 2, day = 29\<rparr> today \<and> \<not> is_leap (year today + 1))"
  shows "get_upcoming_birthdays today book = Inl (ValueError msg_out_of_range)"
proof -
  from feb29_birthday_this_year [OF assms(3,4,5)] assms(2)
  have ce: "contact_entry today c = Inl (ValueError msg_out_of_range)"
    by (simp add: contact_entry_def)
  from assms(1) have "c \<in> set (map snd book)" by force
  from upcoming_loop_Inl [OF this ce] obtain e where e: "upcoming_loop today (map snd book) [] = Inl e" ..
  from upcoming_loop_Inl_source [OF e] contact_entry_Inl have "e = ValueError msg_out_of_range"
    by blast
  with e show ?thesis by (simp add: get_upcoming_birthdays_def)
qed

theorem leap_day_birthday_fails_witness:
  "(''Eve'', \<lparr>name = ''Eve'', phones = [], birthday = Some \<lparr>year = 2000, month = 2, day = 29\<rparr>\<rparr>)
     \<in> set [(''Ann'', \<lparr>name = ''Ann'', phones = [], birthday = Some \<lparr>year = 1990, month = 3, day = 3\<rparr>\<rparr>),
             (''Eve'', \<lparr>name = ''Eve'', phones = [], birthday = Some \<lparr>year = 2000, month = 2, day = 29\<rparr>\<rparr>)] \<and>
   \<not> is_leap 2025 \<and>
   get_upcoming_birthdays \<lparr>year = 2025, month = 3, day = 1\<rparr>
     [(''Ann'', \<lparr>name = ''Ann'', phones = [], birthday = Some \<lparr>year = 1990, month = 3, day = 3\<rparr>\<rparr>),
      (''Eve'', \<lparr>name = ''Eve'', phones = [], birthday = Some \<lparr>year = 2000, month = 2, day = 29\<rparr>\<rparr>)]
     = Inl (ValueError msg_out_of_range)"
proof -
  let ?eve = "\<lparr>name = ''Eve'', phones = [], birthday = Some \<lparr>year = 2000, month = 2, day = 29\<rparr>\<rparr>"
  let ?book = "[(''Ann'', \<lparr>name = ''Ann'', phones = [], birthday = Some \<lparr>year = 1990, month = 3, day = 3\<rparr>\<rparr>),
                (''Eve'', ?eve)]"
  let ?today = "\<lparr>year = 2025, month = 3, day = 1\<rparr>"
  have h1: "(''Eve'', ?eve) \<in> set ?book" by simp
  have h2: "birthday ?eve = Some \<lparr>year = 2000, month = 2, day = 29\<rparr>" by simp
  have h3: "month \<lparr>year = 2000, month = 2, day = 29\<rparr> = 2" by simp
  have h4: "day \<lparr>year = 2000, month = 2, day = 29\<rparr> = 29" by simp
  have nl: "\<not> is_leap 2025" by (simp add: is_leap_def)
  then have h5: "\<not> is_leap (year ?today) \<or>
      (date_less \<lparr>year = year ?today, month = 2, day = 29\<rparr> ?today \<and> \<not> is_leap (year ?today + 1))"
    by simp
  from leap_day_birthday_fails [OF h1 h2 h3 h4 h5] h1 nl show ?thesis by simp
qed

lemma monday_after_saturday: "(x::int) mod 7 = 5 \<Longrightarrow> (x + 2) mod 7 = 0"
  by presburger

lemma monday_after_sunday: "(x::int) mod 7 = 6 \<Longrightarrow> (x + 1) mod 7 = 0"
  by presburger


text \<open>
  Claim C3. Let a contact of the book have a birthday whose date in the current or next
  year, unshifted, is today or at most seven days ahead. Then the congratulation date
  exists; it is that date plus two days when it falls on a Saturday, plus one day when it
  falls on a Sunday, and that date itself otherwise; a shifted date is a Monday; and
  whenever the query returns a list, the list holds the contact's name with the
  congratulation date formatted, also when the shifted date is eight or nine days ahead.
\<close>

theorem weekend_shift:
  assumes "(k, c) \<in> set book" and "birthday c = Some b"
    and "birthday_this_year today b = Inr d"
    and "0 \<le> toordinal d - toordinal today" and "toordinal d - toordinal today \<le> 7"
  shows "\<exists>cd. congratulation_date d = Inr cd \<and> valid_date cd \<and>
           toordinal cd =
             toordinal d + (if weekday d = 5 then 2 else if weekday d = 6 then 1 else 0) \<and>
           (weekday d = 5 \<or> weekday d = 6 \<longrightarrow> weekday cd = 0) \<and>
           (\<forall>out. get_upcoming_birthdays today book = Inr out \<longrightarrow>
              (name c, strftime cd) \<in> set out)"
proof -
  from birthday_this_year_Inr [OF assms(3)] have v: "valid_date d" by simp
  from congratulation_date_total [OF v] obtain cd where cd: "congratulation_date d = Inr cd" ..
  from congratulation_date_Inr [OF cd v] have vc: "valid_date cd"
    and o: "toordinal cd =
      toordinal d + (if weekday d = 5 then 2 else if weekday d = 6 then 1 else 0)"
    by simp_all
  have wd: "weekday d = 5 \<or> weekday d = 6 \<longrightarrow> weekday cd = 0"
  proof
    assume "weekday d = 5 \<or> weekday d = 6"
    then show "weekday cd = 0"
    proof
      assume w: "weekday d = 5"
      then have "(toordinal d + 6) mod 7 = 5" by (simp add: weekday_def)
      from monday_after_saturday [OF this] w o show ?thesis
        by (simp add: weekday_def add.commute add.left_commute)
    next
      assume w: "weekday d = 6"
      then have "(toordinal d + 6) mod 7 = 6" by (simp add: weekday_def)
      from monday_after_sunday [OF this] w o show ?thesis
        by (simp add: weekday_def add.commute add.left_commute)
    qed
  qed
  from assms(2,3,4,5) cd have ce: "contact_entry today c = Inr (Some (name c, strftime cd))"
    by (simp add: contact_entry_def)
  from assms(1) have mem: "c \<in> set (map snd book)" by force
  have "\<forall>out. get_upcoming_birthdays today book = Inr out \<longrightarrow> (name c, strftime cd) \<in> set out"
    using upcoming_loop_mem [OF _ mem ce] by (simp add: get_upcoming_birthdays_def)
  with cd vc o wd show ?thesis by blast
qed

theorem weekend_shift_witness:
  "(''Bob'', \<lparr>name = ''Bob'', phones = [], birthday = Some \<lparr>year = 1990, month = 5, day = 25\<rparr>\<rparr>)
     \<in> set [(''Bob'', \<lparr>name = ''Bob'', phones = [],
                       birthday = Some \<lparr>year = 1990, month = 5, day = 25\<rparr>\<rparr>)] \<and>
   birthday_this_year \<lparr>year = 2024, month = 5, day = 18\<rparr> \<lparr>year = 1990, month = 5, day = 25\<rparr>
     = Inr \<lparr>year = 2024, month = 5, day = 25\<rparr> \<and>
   toordinal \<lparr>year = 2024, month = 5, day = 25\<rparr> - toordinal \<lparr>year = 2024, month = 5, day = 18\<rparr> = 7 \<and>
   weekday \<lparr>year = 2024, month = 5, day = 25\<rparr> = 5 \<and>
   get_upcoming_birthdays \<lparr>year = 2024, month = 5, day = 18\<rparr>
     [(''Bob'', \<lparr>name = ''Bob'', phones = [],
               birthday = Some \<lparr>year = 1990, month = 5, day = 25\<rparr>\<rparr>)]
     = Inr [(''Bob'', ''27.05.2024'')] \<and>
   (\<exists>cd. congratulation_date \<lparr>year = 2024, month = 5, day = 25\<rparr> = Inr cd \<and>
      toordinal cd - toordinal \<lparr>year = 2024, month = 5, day = 18\<rparr> = 9 \<and>
      (''Bob'', strftime cd) \<in> set [(''Bob'', ''27.05.2024'')])"
proof -
  let ?today = "\<lparr>year = 2024, month = 5, day = 18\<rparr>"
  let ?b = "\<lparr>year = 1990, month = 5, day = 25\<rparr>"
  let ?d = "\<lparr>year = 2024, month = 5, day = 25\<rparr>"
  let ?bob = "\<lparr>name = ''Bob'', phones = [], birthday = Some ?b\<rparr>"
  let ?book = "[(''Bob'', ?bob)]"
  have h1: "(''Bob'', ?bob) \<in> set ?book" by simp
  have h2: "birthday ?bob = Some ?b" by simp
  have h3: "birthday_this_year ?today ?b = Inr ?d" by code_simp
  have delta: "toordinal ?d - toordinal ?today = 7" by code_simp
  then have h4: "0 \<le> toordinal ?d - toordinal ?today" and h5: "toordinal ?d - toordinal ?today \<le> 7"
    by simp_all
  have wd: "weekday ?d = 5" by code_simp
  have out: "get_upcoming_birthdays ?today ?book = Inr [(''Bob'', ''27.05.2024'')]" by code_simp
  from weekend_shift [OF h1 h2 h3 h4 h5] obtain cd where cd: "congratulation_date ?d = Inr cd"
    and o: "toordinal cd = toordinal ?d + (if weekday ?d = 5 then 2 else if weekday ?d = 6 then 1 else 0)"
    and m: "\<forall>out. get_upcoming_birthdays ?today ?book = Inr out \<longrightarrow> (name ?bob, strftime cd) \<in> set out"
    by blast
  from o wd delta have nine: "toordinal cd - toordinal ?today = 9" by simp
  from m out have "(name ?bob, strftime cd) \<in> set [(''Bob'', ''27.05.2024'')]" by blast
  then have mem: "(''Bob'', strftime cd) \<in> set [(''Bob'', ''27.05.2024'')]" by simp
  from cd nine mem have ex: "\<exists>cd. congratulation_date ?d = Inr cd \<and>
      toordinal cd - toordinal ?today = 9 \<and> (''Bob'', strftime cd) \<in> set [(''Bob'', ''27.05.2024'')]"
    by blast
  show ?thesis
    by (intro conjI h1 h3 delta wd out ex)
qed






section \<open>Parsing and formatting birthdays\<close>

subsection \<open>Digits\<close>




subsection \<open>The regular expression on two-digit fields\<close>

















subsection \<open>Strings of the shape DD.MM.YYYY\<close>







end
